theory Spec2Isabelle
  imports Main "HOL-Library.Word"
begin

section \<open>The pause-aware SupraHedgeVault contract\<close>

text \<open>
  The contract of \<^verbatim>\<open>src/unnamed/part_002\<close> (Solidity \<^verbatim>\<open>^0.8.20\<close>). An
  \<^verbatim>\<open>address\<close> is a 160-bit word, a \<^verbatim>\<open>uint256\<close> a 256-bit word. From
  Solidity 0.8 on \<^verbatim>\<open>+=\<close> and \<^verbatim>\<open>-=\<close> are checked: an overflow or underflow
  reverts the call with \<^verbatim>\<open>Panic(0x11)\<close>, which the model keeps as an error of its own.
\<close>

type_synonym address = "160 word"
type_synonym uint256 = "256 word"

text \<open>
  The events of the contract, in the order of their declaration. The last one,
  \<^verbatim>\<open>OwnerChanged(oldOwner, newOwner)\<close>, is emitted only by the earlier stub of the
  contract (modelled further down), which shares \<^verbatim>\<open>Deposit\<close> and \<^verbatim>\<open>Withdraw\<close>.
\<close>

datatype event =
    Deposit address uint256
  | Withdraw address uint256
  | Paused bool
  | GuardianUpdated address
  | OwnerUpdated address
  | OwnerChanged address address

text \<open>
  The reasons a call reverts with: the message of each \<^verbatim>\<open>require\<close>, and the
  arithmetic panic of the checked operators. \<^verbatim>\<open>ZERO_ADDR\<close>, \<^verbatim>\<open>ZERO\<close>,
  \<^verbatim>\<open>INSUFFICIENT\<close> and \<^verbatim>\<open>SEND_FAIL\<close> are the messages of the stub.
\<close>

datatype error =
    NOT_OWNER
  | NOT_AUTHORIZED
  | VAULT_PAUSED
  | ZERO_DEPOSIT
  | ZERO_WITHDRAW
  | INSUFFICIENT_BALANCE
  | ETH_TRANSFER_FAILED
  | ZERO_ADDRESS
  | Panic_0x11
  | ZERO_ADDR
  | ZERO
  | INSUFFICIENT
  | SEND_FAIL

text \<open>The storage of the contract, with the log of the events emitted so far.\<close>

record vault =
  owner :: address
  guardian :: address
  paused :: bool
  balances :: "address \<Rightarrow> uint256"
  totalAssets :: uint256
  events :: "event list"

text \<open>The part of \<^verbatim>\<open>msg\<close> the contract reads.\<close>

record msg =
  msg_sender :: address
  msg_value :: uint256

text \<open>
  A call returns the new storage, or the reason of its revert. A reverted call leaves
  the storage as it was before the call: \<open>after\<close> is the storage once the call is over.
\<close>

definition after :: "vault \<Rightarrow> error + vault \<Rightarrow> vault" where
  "after s r = (case r of Inl e \<Rightarrow> s | Inr s' \<Rightarrow> s')"

text \<open>Checked arithmetic of Solidity 0.8 on \<^verbatim>\<open>uint256\<close>.\<close>

definition checked_add :: "uint256 \<Rightarrow> uint256 \<Rightarrow> error + uint256" where
  "checked_add a b = (if unat a + unat b < 2 ^ 256 then Inr (a + b) else Inl Panic_0x11)"

definition checked_sub :: "uint256 \<Rightarrow> uint256 \<Rightarrow> error + uint256" where
  "checked_sub a b = (if b \<le> a then Inr (a - b) else Inl Panic_0x11)"

subsection \<open>Modifiers\<close>

text \<open>A modifier guards the body it wraps: \<^verbatim>\<open>require(c, m); _;\<close>.\<close>

definition onlyOwner :: "address \<Rightarrow> vault \<Rightarrow> (error + vault) \<Rightarrow> error + vault" where
  "onlyOwner sender s body = (if sender = owner s then body else Inl NOT_OWNER)"

definition onlyGuardianOrOwner :: "address \<Rightarrow> vault \<Rightarrow> (error + vault) \<Rightarrow> error + vault" where
  "onlyGuardianOrOwner sender s body =
     (if sender = owner s \<or> sender = guardian s then body else Inl NOT_AUTHORIZED)"

definition notPaused :: "vault \<Rightarrow> (error + vault) \<Rightarrow> error + vault" where
  "notPaused s body = (if \<not> paused s then body else Inl VAULT_PAUSED)"

subsection \<open>Constructor\<close>

text \<open>Storage starts zeroed; the constructor sets the owner and the guardian.\<close>

definition constructor :: "address \<Rightarrow> address \<Rightarrow> vault" where
  "constructor sender g =
     \<lparr>owner = sender, guardian = g, paused = False, balances = (\<lambda>a. 0),
      totalAssets = 0, events = []\<rparr>"

subsection \<open>Deposit and withdraw\<close>

definition deposit_body :: "msg \<Rightarrow> vault \<Rightarrow> error + vault" where
  "deposit_body m s =
     (if \<not> (msg_value m > 0) then Inl ZERO_DEPOSIT
      else case checked_add (balances s (msg_sender m)) (msg_value m) of
        Inl e \<Rightarrow> Inl e
      | Inr b \<Rightarrow>
          (case checked_add (totalAssets s) (msg_value m) of
             Inl e \<Rightarrow> Inl e
           | Inr t \<Rightarrow>
               Inr (s\<lparr>balances := (balances s)(msg_sender m := b),
                      totalAssets := t,
                      events := events s @ [Deposit (msg_sender m) (msg_value m)]\<rparr>)))"

definition deposit :: "msg \<Rightarrow> vault \<Rightarrow> error + vault" where
  "deposit m s = notPaused s (deposit_body m s)"

text \<open>
  \<^verbatim>\<open>withdraw\<close> writes the storage and then sends the amount to the caller with a
  low-level call, \<^verbatim>\<open>msg.sender.call{value: amount}("")\<close>. The call hands control,
  with all the gas left and with no lock, to the code of the recipient, which may call
  back into the vault before it returns. A \<open>recipient\<close> is what that code does, seen
  from the vault: from the storage it finds when it gets control, the result \<open>ok\<close> of
  the call and the storage it leaves behind. The call also fails, whatever the
  recipient, when the contract does not hold the ether to send.
\<close>

type_synonym recipient = "vault \<Rightarrow> bool \<times> vault"

text \<open>A recipient that takes the ether, and one that refuses it; neither calls back.\<close>

definition accepts :: recipient where
  "accepts s = (True, s)"

definition rejects :: recipient where
  "rejects s = (False, s)"

text \<open>The storage after the two writes of \<^verbatim>\<open>withdraw\<close>, as the recipient finds it.\<close>

definition debited :: "address \<Rightarrow> uint256 \<Rightarrow> vault \<Rightarrow> vault" where
  "debited sender amount s =
     s\<lparr>balances := (balances s)(sender := balances s sender - amount),
       totalAssets := totalAssets s - amount\<rparr>"

definition withdraw_body :: "address \<Rightarrow> uint256 \<Rightarrow> recipient \<Rightarrow> vault \<Rightarrow> error + vault" where
  "withdraw_body sender amount rcp s =
     (if \<not> (amount > 0) then Inl ZERO_WITHDRAW
      else if \<not> (balances s sender \<ge> amount) then Inl INSUFFICIENT_BALANCE
      else case checked_sub (balances s sender) amount of
        Inl e \<Rightarrow> Inl e
      | Inr b \<Rightarrow>
          (case checked_sub (totalAssets s) amount of
             Inl e \<Rightarrow> Inl e
           | Inr t \<Rightarrow>
               (case rcp (s\<lparr>balances := (balances s)(sender := b), totalAssets := t\<rparr>) of
                  (ok, s2) \<Rightarrow>
                    if \<not> ok then Inl ETH_TRANSFER_FAILED
                    else Inr (s2\<lparr>events := events s2 @ [Withdraw sender amount]\<rparr>))))"

definition withdraw :: "address \<Rightarrow> uint256 \<Rightarrow> recipient \<Rightarrow> vault \<Rightarrow> error + vault" where
  "withdraw sender amount rcp s = notPaused s (withdraw_body sender amount rcp s)"

text \<open>A plain transfer of ether runs \<^verbatim>\<open>deposit()\<close> as an internal call, under the same \<^verbatim>\<open>msg\<close>.\<close>

definition receive :: "msg \<Rightarrow> vault \<Rightarrow> error + vault" where
  "receive m s = deposit m s"

subsection \<open>Admin and safety\<close>

definition setPaused :: "address \<Rightarrow> bool \<Rightarrow> vault \<Rightarrow> error + vault" where
  "setPaused sender p s =
     onlyGuardianOrOwner sender s
       (Inr (s\<lparr>paused := p, events := events s @ [Paused p]\<rparr>))"

definition setGuardian :: "address \<Rightarrow> address \<Rightarrow> vault \<Rightarrow> error + vault" where
  "setGuardian sender newGuardian s =
     onlyOwner sender s
       (if \<not> (newGuardian \<noteq> 0) then Inl ZERO_ADDRESS
        else Inr (s\<lparr>guardian := newGuardian, events := events s @ [GuardianUpdated newGuardian]\<rparr>))"

definition setOwner :: "address \<Rightarrow> address \<Rightarrow> vault \<Rightarrow> error + vault" where
  "setOwner sender newOwner s =
     onlyOwner sender s
       (if \<not> (newOwner \<noteq> 0) then Inl ZERO_ADDRESS
        else Inr (s\<lparr>owner := newOwner, events := events s @ [OwnerUpdated newOwner]\<rparr>))"

definition assets :: "vault \<Rightarrow> uint256" where
  "assets s = totalAssets s"

subsection \<open>Sequences of calls\<close>

text \<open>
  The external interface of the contract: one constructor per entry point, with the
  caller (or \<^verbatim>\<open>msg\<close>) and the arguments. A call of \<^verbatim>\<open>withdraw\<close> carries what
  its recipient does when it gets control: the calls it makes back into the vault, in
  order, and the result of the transfer. A call made back may be any call, by any
  sender, and may be a withdrawal with a recipient of its own; when it reverts, the
  storage is as before it and the recipient goes on (a recipient that gives up
  instead is one whose transfer fails).
\<close>

datatype call =
    CallDeposit msg
  | CallWithdraw address uint256 "call list" bool
  | CallReceive msg
  | CallSetPaused address bool
  | CallSetGuardian address address
  | CallSetOwner address address

fun exec :: "call \<Rightarrow> vault \<Rightarrow> error + vault"
  and exec_all :: "call list \<Rightarrow> vault \<Rightarrow> vault" where
  "exec (CallDeposit m) s = deposit m s"
| "exec (CallWithdraw a n cs ok) s = withdraw a n (\<lambda>s1. (ok, exec_all cs s1)) s"
| "exec (CallReceive m) s = receive m s"
| "exec (CallSetPaused a p) s = setPaused a p s"
| "exec (CallSetGuardian a g) s = setGuardian a g s"
| "exec (CallSetOwner a n) s = setOwner a n s"
| "exec_all [] s = s"
| "exec_all (c # cs) s = exec_all cs (after s (exec c s))"

text \<open>The states the contract can be in: deployed, then any number of successful calls.\<close>

inductive reachable :: "vault \<Rightarrow> bool" where
  deployed: "reachable (constructor d g)"
| called: "reachable s \<Longrightarrow> exec c s = Inr s' \<Longrightarrow> reachable s'"

text \<open>The sum of all balances, as a natural number (it is not reduced modulo \<open>2 ^ 256\<close>).\<close>

definition sum_balances :: "vault \<Rightarrow> nat" where
  "sum_balances s = (\<Sum>a\<in>UNIV. unat (balances s a))"

section \<open>The stub of the contract\<close>

text \<open>
  \<^verbatim>\<open>src/contracts/SupraHedgeVault.sol\<close> is an earlier stub of the same contract: an
  owner and the balances, with neither pause flag nor total. Of it, the deposit path
  is modelled, under the names of the contract above with the suffix \<open>_stub\<close>. Its
  \<^verbatim>\<open>receive\<close> calls \<^verbatim>\<open>deposit()\<close> unqualified, that is as an internal call under the
  same \<^verbatim>\<open>msg\<close>, which is how it is modelled (the stub declares \<^verbatim>\<open>deposit\<close>
  external).
\<close>

record vault_stub =
  owner_stub :: address
  balances_stub :: "address \<Rightarrow> uint256"
  events_stub :: "event list"

definition constructor_stub :: "address \<Rightarrow> vault_stub" where
  "constructor_stub sender = \<lparr>owner_stub = sender, balances_stub = (\<lambda>a. 0), events_stub = []\<rparr>"

definition deposit_stub :: "msg \<Rightarrow> vault_stub \<Rightarrow> error + vault_stub" where
  "deposit_stub m s =
     (if \<not> (msg_value m > 0) then Inl ZERO
      else case checked_add (balances_stub s (msg_sender m)) (msg_value m) of
        Inl e \<Rightarrow> Inl e
      | Inr b \<Rightarrow>
          Inr (s\<lparr>balances_stub := (balances_stub s)(msg_sender m := b),
                 events_stub := events_stub s @ [Deposit (msg_sender m) (msg_value m)]\<rparr>))"

definition receive_stub :: "msg \<Rightarrow> vault_stub \<Rightarrow> error + vault_stub" where
  "receive_stub m s = deposit_stub m s"

section \<open>The page: reading the public environment\<close>

text \<open>
  \<^verbatim>\<open>readPublicEnv\<close> of \<^verbatim>\<open>src/unnamed/part_000\<close> tests the values it finds at run
  time with \<^verbatim>\<open>typeof\<close>, truthiness and \<^verbatim>\<open>.length\<close>, so the model keeps the kinds
  of JavaScript values apart. Numbers are integers here (no \<^verbatim>\<open>NaN\<close>); neither test
  looks inside a number or an object.
\<close>

datatype jsval =
    JUndefined
  | JNull
  | JBoolean bool
  | JNumber int
  | JString string
  | JObject




text \<open>
  Evaluating an expression completes normally, with a value, or throws. Reading a
  property can throw (a getter, a proxy), and the function wraps its reads in two
  \<^verbatim>\<open>try\<close> blocks for that reason.
\<close>

datatype 'a completion = Normal 'a | Throw













fun is_nonempty_string :: "jsval completion \<Rightarrow> bool" where
  "is_nonempty_string (Normal (JString s)) = (s \<noteq> [])"
| "is_nonempty_string v = False"

fun spec_first_nonempty_string :: "jsval completion list \<Rightarrow> string option" where
  "spec_first_nonempty_string [] = None"
| "spec_first_nonempty_string (Normal (JString s) # vs) =
     (if s \<noteq> [] then Some s else spec_first_nonempty_string vs)"
| "spec_first_nonempty_string (v # vs) = spec_first_nonempty_string vs"

section \<open>The page: deposit and withdraw actions\<close>

text \<open>
  The two callbacks of \<^verbatim>\<open>AppFunctional\<close>. What a callback does is the list of its
  effects, in order: the contract reads and writes it issues and its calls of
  \<^verbatim>\<open>setBusy\<close>. An awaited call that rejects throws; there is no \<^verbatim>\<open>catch\<close>, so the
  \<^verbatim>\<open>finally\<close> block runs and the exception leaves the callback.
\<close>

type_synonym hex_address = string

datatype effect =
    SetBusy bool
  | ReadAllowance hex_address hex_address hex_address
  | WriteApprove hex_address hex_address hex_address int
  | WriteDeposit hex_address hex_address int hex_address
  | WriteRedeem hex_address hex_address int hex_address hex_address

text \<open>
  \<open>ReadAllowance token owner spender\<close>, \<open>WriteApprove account token spender amount\<close>,
  \<open>WriteDeposit account vault assets receiver\<close> and
  \<open>WriteRedeem account vault shares receiver owner\<close>: the contract called and the
  arguments of the call.
\<close>

datatype outcome = Returned | Threw

text \<open>The constants \<^verbatim>\<open>VAULT_ADDR\<close> and \<^verbatim>\<open>USDC_ADDR\<close> of the module.\<close>

record config =
  VAULT_ADDR :: hex_address
  USDC_ADDR :: hex_address

text \<open>\<^verbatim>\<open>Boolean(VAULT_ADDR && USDC_ADDR)\<close>: both strings are non-empty.\<close>

definition hasConfig :: "config \<Rightarrow> bool" where
  "hasConfig c = (VAULT_ADDR c \<noteq> [] \<and> USDC_ADDR c \<noteq> [])"

text \<open>
  The state of the component that the callbacks read. \<open>wallet\<close> tells whether a
  wallet client is set; a \<^verbatim>\<open>bigint\<close> is an \<open>int\<close>; \<open>withdrawPct\<close> is the integer
  the slider gives.
\<close>

record page =
  address :: "hex_address option"
  wallet :: bool
  decimals :: int
  userShares :: "int option"
  amount :: string
  withdrawPct :: int

text \<open>\<^verbatim>\<open>!!address\<close>: the address is set and not the empty string.\<close>

definition connected :: "page \<Rightarrow> bool" where
  "connected p = (case address p of None \<Rightarrow> False | Some a \<Rightarrow> a \<noteq> [])"

text \<open>\<^verbatim>\<open>!userShares\<close> holds for \<^verbatim>\<open>undefined\<close> and for \<^verbatim>\<open>0n\<close>.\<close>

definition not_userShares :: "page \<Rightarrow> bool" where
  "not_userShares p = (case userShares p of None \<Rightarrow> True | Some s \<Rightarrow> s = 0)"

text \<open>
  Division of \<^verbatim>\<open>bigint\<close> truncates towards zero. (Division by \<^verbatim>\<open>0n\<close> throws; the
  only divisor in the page is \<^verbatim>\<open>BigInt(100)\<close>.)
\<close>

definition bigint_div :: "int \<Rightarrow> int \<Rightarrow> int" where
  "bigint_div a b = sgn a * sgn b * (\<bar>a\<bar> div \<bar>b\<bar>)"

text \<open>\<open>redeem_ok\<close>: whether the awaited \<^verbatim>\<open>writeContract\<close> resolves.\<close>

definition onWithdraw :: "config \<Rightarrow> page \<Rightarrow> bool \<Rightarrow> effect list \<times> outcome" where
  "onWithdraw c p redeem_ok =
     (if \<not> wallet p \<or> \<not> connected p \<or> \<not> hasConfig c \<or> not_userShares p then ([], Returned)
      else case (address p, userShares p) of
        (Some account, Some s) \<Rightarrow>
          (let shares = bigint_div (s * withdrawPct p) 100 in
           ([SetBusy True, WriteRedeem account (VAULT_ADDR c) shares account account, SetBusy False],
            if redeem_ok then Returned else Threw))
      | _ \<Rightarrow> ([], Returned))"

text \<open>
  \<^verbatim>\<open>onDeposit\<close>. \<^verbatim>\<open>parseUnits\<close> belongs to the library \<^verbatim>\<open>viem\<close> and is a
  parameter: it returns a \<^verbatim>\<open>bigint\<close> or throws (\<open>None\<close>). The answers of the network
  are parameters too: \<open>allowance\<close> is the value the read returns (\<open>None\<close> when it
  rejects), \<open>approve_ok\<close> and \<open>deposit_ok\<close> tell whether the writes resolve.
\<close>

definition onDeposit ::
  "(string \<Rightarrow> int \<Rightarrow> int option) \<Rightarrow> config \<Rightarrow> page \<Rightarrow> int option \<Rightarrow> bool \<Rightarrow> bool
     \<Rightarrow> effect list \<times> outcome" where
  "onDeposit parseUnits c p allowance approve_ok deposit_ok =
     (if \<not> wallet p \<or> \<not> connected p \<or> \<not> hasConfig c then ([], Returned)
      else case address p of
        None \<Rightarrow> ([], Returned)
      | Some account \<Rightarrow>
          (case parseUnits (if amount p \<noteq> [] then amount p else ''0'') (decimals p) of
             None \<Rightarrow> ([SetBusy True, SetBusy False], Threw)
           | Some assets' \<Rightarrow>
               (let rd = ReadAllowance (USDC_ADDR c) account (VAULT_ADDR c);
                    ap = WriteApprove account (USDC_ADDR c) (VAULT_ADDR c) assets';
                    dp = WriteDeposit account (VAULT_ADDR c) assets' account
                in case allowance of
                  None \<Rightarrow> ([SetBusy True, rd, SetBusy False], Threw)
                | Some al \<Rightarrow>
                    if al < assets' then
                      (if \<not> approve_ok then ([SetBusy True, rd, ap, SetBusy False], Threw)
                       else ([SetBusy True, rd, ap, dp, SetBusy False],
                             if deposit_ok then Returned else Threw))
                    else ([SetBusy True, rd, dp, SetBusy False],
                          if deposit_ok then Returned else Threw))))"

text \<open>The contract calls among the effects, and the kinds of call.\<close>

fun is_call :: "effect \<Rightarrow> bool" where
  "is_call (SetBusy b) = False"
| "is_call e = True"

definition contract_calls :: "effect list \<times> outcome \<Rightarrow> effect list" where
  "contract_calls r = filter is_call (fst r)"

fun is_allowance_read :: "effect \<Rightarrow> bool" where
  "is_allowance_read (ReadAllowance t ow sp) = True"
| "is_allowance_read e = False"

fun is_approve :: "effect \<Rightarrow> bool" where
  "is_approve (WriteApprove a t sp n) = True"
| "is_approve e = False"

fun is_deposit :: "effect \<Rightarrow> bool" where
  "is_deposit (WriteDeposit a v n r) = True"
| "is_deposit e = False"

text \<open>Every deposit in a list of effects has an allowance read before it.\<close>

fun deposit_after_read :: "bool \<Rightarrow> effect list \<Rightarrow> bool" where
  "deposit_after_read seen [] = True"
| "deposit_after_read seen (e # es) =
     ((is_deposit e \<longrightarrow> seen) \<and> deposit_after_read (seen \<or> is_allowance_read e) es)"

section \<open>Example states\<close>

text \<open>
  The vault deployed by address 1 with guardian 2, after address 7 has deposited 5 wei;
  the same vault after the owner has paused it; and the stub after the same deposit.
\<close>

definition funded_vault :: vault where
  "funded_vault =
     \<lparr>owner = 1, guardian = 2, paused = False, balances = (\<lambda>a. 0)(7 := 5),
      totalAssets = 5, events = [Deposit 7 5]\<rparr>"

definition paused_vault :: vault where
  "paused_vault =
     \<lparr>owner = 1, guardian = 2, paused = True, balances = (\<lambda>a. 0)(7 := 5),
      totalAssets = 5, events = [Deposit 7 5, Paused True]\<rparr>"

definition funded_stub :: vault_stub where
  "funded_stub =
     \<lparr>owner_stub = 1, balances_stub = (\<lambda>a. 0)(7 := 5), events_stub = [Deposit 7 5]\<rparr>"

text \<open>
  The vault after address 7 has withdrawn 3 wei through a recipient that, on getting
  control, withdraws 2 more: the call, what its recipient does, and the storage left.
\<close>

definition reentrant_withdraw :: call where
  "reentrant_withdraw = CallWithdraw 7 3 [CallWithdraw 7 2 [] True] True"

definition withdraws_2_more :: recipient where
  "withdraws_2_more s = (True, after s (withdraw 7 2 accepts s))"

definition drained_vault :: vault where
  "drained_vault =
     \<lparr>owner = 1, guardian = 2, paused = False, balances = (\<lambda>a. 0)(7 := 0),
      totalAssets = 0, events = [Deposit 7 5, Withdraw 7 2, Withdraw 7 3]\<rparr>"






text \<open>
  A configured page with a connected wallet that holds 200 shares, the slider at its
  initial 25 percent and the initial amount; and \<^verbatim>\<open>parseUnits\<close> at that amount:
  \<^verbatim>\<open>parseUnits('1000', 6)\<close> is \<^verbatim>\<open>1000000000n\<close>.
\<close>

definition example_config :: config where
  "example_config = \<lparr>VAULT_ADDR = ''0xvault'', USDC_ADDR = ''0xusdc''\<rparr>"

definition example_page :: page where
  "example_page =
     \<lparr>address = Some ''0xuser'', wallet = True, decimals = 6, userShares = Some 200,
      amount = ''1000'', withdrawPct = 25\<rparr>"

definition parseUnits_example :: "string \<Rightarrow> int \<Rightarrow> int option" where
  "parseUnits_example a d = (if a = ''1000'' \<and> d = 6 then Some 1000000000 else None)"

section \<open>Arithmetic of the ledger\<close>

lemma unat_add_256:
  fixes a b :: uint256
  assumes "unat a + unat b < 2 ^ 256"
  shows "unat (a + b) = unat a + unat b"
  using assms unat_add_lem [of a b] by simp

lemma unat_sub_256:
  fixes a b :: uint256
  assumes "b \<le> a"
  shows "unat (a - b) + unat b = unat a"
  using assms by (simp add: unat_sub word_le_nat_alt)

lemma sum_unat_update:
  fixes f :: "address \<Rightarrow> uint256"
  shows "(\<Sum>x\<in>UNIV. unat ((f(a := b)) x)) + unat (f a) = (\<Sum>x\<in>UNIV. unat (f x)) + unat b"
proof -
  have fin: "finite (UNIV :: address set)" by simp
  have upd: "(\<Sum>x\<in>UNIV. unat ((f(a := b)) x)) = unat b + (\<Sum>x\<in>UNIV - {a}. unat ((f(a := b)) x))"
    using sum.remove [OF fin, of a "\<lambda>x. unat ((f(a := b)) x)"] by simp
  have old: "(\<Sum>x\<in>UNIV. unat (f x)) = unat (f a) + (\<Sum>x\<in>UNIV - {a}. unat (f x))"
    using sum.remove [OF fin, of a "\<lambda>x. unat (f x)"] by simp
  have rest: "(\<Sum>x\<in>UNIV - {a}. unat ((f(a := b)) x)) = (\<Sum>x\<in>UNIV - {a}. unat (f x))"
    by (rule sum.cong) auto
  show ?thesis using upd old rest by simp
qed

lemma balance_le_sum: "unat (balances s a) \<le> sum_balances s"
proof -
  have "unat (balances s a) = (\<Sum>x\<in>{a}. unat (balances s x))" by simp
  also have "\<dots> \<le> (\<Sum>x\<in>UNIV. unat (balances s x))"
    by (rule sum_mono2) auto
  finally show ?thesis by (simp add: sum_balances_def)
qed

lemma sum_balances_update:
  assumes "balances s' = (balances s)(a := b)"
  shows "sum_balances s' + unat (balances s a) = sum_balances s + unat b"
  using sum_unat_update [of "balances s" a b] assms by (simp add: sum_balances_def)

lemma sum_balances_constructor: "sum_balances (constructor d g) = 0"
  by (simp add: sum_balances_def constructor_def)

section \<open>What a successful call has done\<close>

lemma deposit_Inr:
  assumes "deposit m s = Inr s'"
  shows "\<not> paused s \<and> 0 < msg_value m
    \<and> unat (balances s (msg_sender m)) + unat (msg_value m) < 2 ^ 256
    \<and> unat (totalAssets s) + unat (msg_value m) < 2 ^ 256
    \<and> s' = s\<lparr>balances := (balances s)(msg_sender m := balances s (msg_sender m) + msg_value m),
              totalAssets := totalAssets s + msg_value m,
              events := events s @ [Deposit (msg_sender m) (msg_value m)]\<rparr>"
  using assms
  by (auto simp: deposit_def notPaused_def deposit_body_def checked_add_def
           split: if_splits sum.splits)

lemma withdraw_Inr:
  assumes "withdraw a n rcp s = Inr s'"
  shows "\<not> paused s \<and> 0 < n \<and> n \<le> balances s a \<and> n \<le> totalAssets s
    \<and> fst (rcp (debited a n s))
    \<and> s' = (snd (rcp (debited a n s)))
               \<lparr>events := events (snd (rcp (debited a n s))) @ [Withdraw a n]\<rparr>"
  using assms
  by (auto simp: withdraw_def notPaused_def withdraw_body_def checked_sub_def debited_def
           split: if_splits sum.splits prod.splits)

lemma withdraw_at_transfer:
  assumes "\<not> paused s" and "0 < n" and "n \<le> balances s a" and "n \<le> totalAssets s"
  shows "withdraw a n rcp s =
     (if fst (rcp (debited a n s))
      then Inr ((snd (rcp (debited a n s)))
                  \<lparr>events := events (snd (rcp (debited a n s))) @ [Withdraw a n]\<rparr>)
      else Inl ETH_TRANSFER_FAILED)"
  using assms
  by (simp add: withdraw_def notPaused_def withdraw_body_def checked_sub_def debited_def
        split: prod.splits)

lemma debited_ledger:
  assumes "n \<le> balances s a" and "n \<le> totalAssets s"
  shows "unat (balances (debited a n s) a) + unat n = unat (balances s a)"
    and "unat (totalAssets (debited a n s)) + unat n = unat (totalAssets s)"
    and "b \<noteq> a \<Longrightarrow> balances (debited a n s) b = balances s b"
  using assms by (simp_all add: debited_def unat_sub_256)

lemma setPaused_Inr:
  "setPaused c p s = Inr s' \<Longrightarrow> balances s' = balances s \<and> totalAssets s' = totalAssets s"
  by (auto simp: setPaused_def onlyGuardianOrOwner_def split: if_splits)

lemma setGuardian_Inr:
  "setGuardian c g s = Inr s' \<Longrightarrow> balances s' = balances s \<and> totalAssets s' = totalAssets s"
  by (auto simp: setGuardian_def onlyOwner_def split: if_splits)

lemma setOwner_Inr:
  "setOwner c n s = Inr s' \<Longrightarrow> balances s' = balances s \<and> totalAssets s' = totalAssets s"
  by (auto simp: setOwner_def onlyOwner_def split: if_splits)

section \<open>The total is the sum of the balances\<close>

lemma deposit_sum:
  assumes "deposit m s = Inr s'" and "unat (totalAssets s) = sum_balances s"
  shows "unat (totalAssets s') = sum_balances s'"
proof -
  let ?a = "msg_sender m" and ?v = "msg_value m"
  from deposit_Inr [OF assms(1)] have
    b: "unat (balances s ?a) + unat ?v < 2 ^ 256"
    and t: "unat (totalAssets s) + unat ?v < 2 ^ 256"
    and s': "s' = s\<lparr>balances := (balances s)(?a := balances s ?a + ?v),
                    totalAssets := totalAssets s + ?v,
                    events := events s @ [Deposit ?a ?v]\<rparr>"
    by simp_all
  have "sum_balances s' + unat (balances s ?a) = sum_balances s + unat (balances s ?a + ?v)"
    by (rule sum_balances_update) (simp add: s')
  moreover have "unat (balances s ?a + ?v) = unat (balances s ?a) + unat ?v"
    using b by (rule unat_add_256)
  moreover have "unat (totalAssets s') = unat (totalAssets s) + unat ?v"
    using t by (simp add: s' unat_add_256)
  ultimately show ?thesis using assms(2) by simp
qed

lemma debited_sum:
  assumes "n \<le> balances s a" and "n \<le> totalAssets s"
    and "unat (totalAssets s) = sum_balances s"
  shows "unat (totalAssets (debited a n s)) = sum_balances (debited a n s)"
proof -
  have "sum_balances (debited a n s) + unat (balances s a)
      = sum_balances s + unat (balances s a - n)"
    by (rule sum_balances_update) (simp add: debited_def)
  moreover have "unat (balances s a - n) + unat n = unat (balances s a)"
    using assms(1) by (rule unat_sub_256)
  moreover have "unat (totalAssets (debited a n s)) + unat n = unat (totalAssets s)"
    using assms(1,2) by (rule debited_ledger)
  ultimately show ?thesis using assms(3) by simp
qed

text \<open>A withdrawal keeps the equation when what its recipient does keeps it.\<close>

lemma withdraw_sum:
  assumes "withdraw a n rcp s = Inr s'" and "unat (totalAssets s) = sum_balances s"
    and rcp: "\<And>s1. unat (totalAssets s1) = sum_balances s1 \<Longrightarrow>
               unat (totalAssets (snd (rcp s1))) = sum_balances (snd (rcp s1))"
  shows "unat (totalAssets s') = sum_balances s'"
proof -
  from withdraw_Inr [OF assms(1)] have
    b: "n \<le> balances s a"
    and t: "n \<le> totalAssets s"
    and s': "s' = (snd (rcp (debited a n s)))
                    \<lparr>events := events (snd (rcp (debited a n s))) @ [Withdraw a n]\<rparr>"
    by simp_all
  have "unat (totalAssets (debited a n s)) = sum_balances (debited a n s)"
    using b t assms(2) by (rule debited_sum)
  then have "unat (totalAssets (snd (rcp (debited a n s))))
      = sum_balances (snd (rcp (debited a n s)))"
    by (rule rcp)
  then show ?thesis by (simp add: s' sum_balances_def)
qed

lemma exec_sum_both:
  "(\<forall>s'. unat (totalAssets s) = sum_balances s \<longrightarrow> exec c s = Inr s' \<longrightarrow>
        unat (totalAssets s') = sum_balances s')"
  "(unat (totalAssets s) = sum_balances s \<longrightarrow>
        unat (totalAssets (exec_all cs s)) = sum_balances (exec_all cs s))"
proof (induction c s and cs s rule: exec_exec_all.induct)
  case (1 m s)
  show ?case using deposit_sum by auto
next
  case (2 a n cs ok s)
  show ?case
  proof (intro allI impI)
    fix s' assume inv: "unat (totalAssets s) = sum_balances s"
      and ex: "exec (CallWithdraw a n cs ok) s = Inr s'"
    from ex have w: "withdraw a n (\<lambda>s1. (ok, exec_all cs s1)) s = Inr s'" by simp
    show "unat (totalAssets s') = sum_balances s'"
      using w inv
    proof (rule withdraw_sum)
      fix s1 assume "unat (totalAssets s1) = sum_balances s1"
      with "2.IH" [of s1] show "unat (totalAssets (snd (ok, exec_all cs s1)))
          = sum_balances (snd (ok, exec_all cs s1))"
        by simp
    qed
  qed
next
  case (3 m s)
  show ?case using deposit_sum by (auto simp: receive_def)
next
  case (4 a p s)
  show ?case using setPaused_Inr [of a p s] by (auto simp: sum_balances_def)
next
  case (5 a g s)
  show ?case using setGuardian_Inr [of a g s] by (auto simp: sum_balances_def)
next
  case (6 a n s)
  show ?case using setOwner_Inr [of a n s] by (auto simp: sum_balances_def)
next
  case (7 s)
  show ?case by simp
next
  case (8 c cs s)
  show ?case
  proof
    assume inv: "unat (totalAssets s) = sum_balances s"
    have "unat (totalAssets (after s (exec c s))) = sum_balances (after s (exec c s))"
    proof (cases "exec c s")
      case (Inl e)
      with inv show ?thesis by (simp add: after_def)
    next
      case (Inr s')
      with "8.IH"(1) inv show ?thesis by (simp add: after_def)
    qed
    with "8.IH"(2) show "unat (totalAssets (exec_all (c # cs) s)) = sum_balances (exec_all (c # cs) s)"
      by simp
  qed
qed

lemma exec_sum:
  assumes "exec c s = Inr s'" and "unat (totalAssets s) = sum_balances s"
  shows "unat (totalAssets s') = sum_balances s'"
  using exec_sum_both(1) [of s c] assms by blast

lemma reachable_sum: "reachable s \<Longrightarrow> unat (totalAssets s) = sum_balances s"
proof (induction rule: reachable.induct)
  case (deployed d g)
  show ?case by (simp add: sum_balances_constructor) (simp add: constructor_def)
next
  case (called s c s')
  then show ?case using exec_sum by blast
qed

lemma reachable_balance_le_total:
  assumes "reachable s"
  shows "balances s a \<le> totalAssets s"
  using balance_le_sum [of s a] reachable_sum [OF assms] by (simp add: word_le_nat_alt)

section \<open>The example states are reachable\<close>

lemma funded_vault_step:
  "exec (CallDeposit \<lparr>msg_sender = 7, msg_value = 5\<rparr>) (constructor 1 2) = Inr funded_vault"
  by (simp add: funded_vault_def constructor_def deposit_def notPaused_def deposit_body_def
        checked_add_def)

lemma reachable_funded_vault: "reachable funded_vault"
  using reachable.called [OF reachable.deployed funded_vault_step] .

lemma paused_vault_step: "exec (CallSetPaused 1 True) funded_vault = Inr paused_vault"
  by (simp add: funded_vault_def paused_vault_def setPaused_def onlyGuardianOrOwner_def)

lemma reachable_paused_vault: "reachable paused_vault"
  using reachable.called [OF reachable_funded_vault paused_vault_step] .

lemma withdraws_2_more_at:
  "withdraws_2_more (debited 7 3 funded_vault) =
     (True, \<lparr>owner = 1, guardian = 2, paused = False, balances = (\<lambda>a. 0)(7 := 0),
             totalAssets = 0, events = [Deposit 7 5, Withdraw 7 2]\<rparr>)"
  by (simp add: withdraws_2_more_def debited_def funded_vault_def withdraw_def notPaused_def
        withdraw_body_def checked_sub_def accepts_def after_def)

lemma drained_vault_withdraw: "withdraw 7 3 withdraws_2_more funded_vault = Inr drained_vault"
proof -
  have "\<not> paused funded_vault" "(0::uint256) < 3" "3 \<le> balances funded_vault 7"
    "3 \<le> totalAssets funded_vault"
    by (simp_all add: funded_vault_def)
  then show ?thesis
    by (simp add: withdraw_at_transfer withdraws_2_more_at drained_vault_def)
qed

lemma accepts_Pair: "Pair True = accepts"
  by (simp add: accepts_def fun_eq_iff)

lemma drained_vault_step: "exec reentrant_withdraw funded_vault = Inr drained_vault"
proof -
  have "(\<lambda>s1. (True, exec_all [CallWithdraw 7 2 [] True] s1)) = withdraws_2_more"
    by (simp add: withdraws_2_more_def fun_eq_iff accepts_Pair)
  then show ?thesis
    by (simp add: reentrant_withdraw_def drained_vault_withdraw)
qed

lemma reachable_drained_vault: "reachable drained_vault"
  using reachable.called [OF reachable_funded_vault drained_vault_step] .

lemma funded_stub_step:
  "deposit_stub \<lparr>msg_sender = 7, msg_value = 5\<rparr> (constructor_stub 1) = Inr funded_stub"
  by (simp add: funded_stub_def constructor_stub_def deposit_stub_def checked_add_def)

section \<open>Deposits and withdrawals move the balance and the total together\<close>

text \<open>
  C1, as stated, fails, in two ways. In \<open>funded_vault\<close>, which is not paused, address
  7 holds 5 wei and withdraws 3. When the outgoing transfer fails, the call reverts
  with \<^verbatim>\<open>ETH_TRANSFER_FAILED\<close>, and the balance and the total are still 5, not 2.
  When the transfer succeeds and the recipient, on getting control, calls
  \<^verbatim>\<open>withdraw(2)\<close> before it returns, the one call \<^verbatim>\<open>withdraw(3)\<close> succeeds and
  leaves the balance and the total at 0, not 2: the storage is written before the
  transfer and nothing keeps the recipient from calling back.
\<close>

theorem withdraw_not_exactly_m_counterexample:
  "\<not> paused funded_vault \<and> (0::uint256) < 3 \<and> 3 \<le> balances funded_vault 7
   \<and> withdraw 7 3 rejects funded_vault = Inl ETH_TRANSFER_FAILED
   \<and> balances (after funded_vault (withdraw 7 3 rejects funded_vault)) 7 = 5
   \<and> totalAssets (after funded_vault (withdraw 7 3 rejects funded_vault)) = 5
   \<and> withdraw 7 3 withdraws_2_more funded_vault = Inr drained_vault
   \<and> exec reentrant_withdraw funded_vault = Inr drained_vault
   \<and> balances drained_vault 7 = 0 \<and> totalAssets drained_vault = 0"
proof -
  have g: "\<not> paused funded_vault" "(0::uint256) < 3" "3 \<le> balances funded_vault 7"
    "3 \<le> totalAssets funded_vault" "balances funded_vault 7 = 5" "totalAssets funded_vault = 5"
    by (simp_all add: funded_vault_def)
  have r: "withdraw 7 3 rejects funded_vault = Inl ETH_TRANSFER_FAILED"
    using g by (simp add: withdraw_at_transfer rejects_def)
  have d: "balances drained_vault 7 = 0" "totalAssets drained_vault = 0"
    by (simp_all add: drained_vault_def)
  show ?thesis
    using g r d drained_vault_withdraw drained_vault_step by (simp add: after_def)
qed

text \<open>
  C1, amended. In every reachable state of the vault that is not paused: for every
  caller \<open>a\<close> and value \<open>v > 0\<close> that the total can take without overflowing
  \<^verbatim>\<open>uint256\<close>, \<^verbatim>\<open>deposit()\<close> succeeds, adds exactly \<open>v\<close> to \<open>balances[a]\<close> and to
  \<open>totalAssets\<close> and leaves every other balance as it was. For every amount \<open>m\<close> with
  \<open>0 < m \<le> balances[a]\<close>, \<^verbatim>\<open>withdraw(m)\<close> takes exactly \<open>m\<close> from \<open>balances[a]\<close> and
  from \<open>totalAssets\<close>, leaves every other balance as it was, and hands control to the
  recipient with the storage so written. When the transfer fails, the call reverts and
  changes nothing. When it succeeds, the call succeeds and leaves the storage the
  recipient has left, with the \<^verbatim>\<open>Withdraw\<close> event added; so when the recipient leaves
  the storage as it found it (it does not call back into the vault), the call has
  taken exactly \<open>m\<close> from \<open>balances[a]\<close> and from \<open>totalAssets\<close> and left every other
  balance as it was.
\<close>

theorem deposit_withdraw_accounting:
  assumes "reachable s" and "\<not> paused s"
  shows
    "(0 < v \<and> unat (totalAssets s) + unat v < 2 ^ 256 \<longrightarrow>
        (\<exists>s'. deposit \<lparr>msg_sender = a, msg_value = v\<rparr> s = Inr s'
           \<and> unat (balances s' a) = unat (balances s a) + unat v
           \<and> unat (totalAssets s') = unat (totalAssets s) + unat v
           \<and> (\<forall>b. b \<noteq> a \<longrightarrow> balances s' b = balances s b)))
     \<and> (0 < m \<and> m \<le> balances s a \<longrightarrow>
        unat (balances (debited a m s) a) + unat m = unat (balances s a)
        \<and> unat (totalAssets (debited a m s)) + unat m = unat (totalAssets s)
        \<and> (\<forall>b. b \<noteq> a \<longrightarrow> balances (debited a m s) b = balances s b)
        \<and> (\<not> fst (rcp (debited a m s)) \<longrightarrow>
             withdraw a m rcp s = Inl ETH_TRANSFER_FAILED \<and> after s (withdraw a m rcp s) = s)
        \<and> (fst (rcp (debited a m s)) \<longrightarrow>
             withdraw a m rcp s =
               Inr ((snd (rcp (debited a m s)))
                      \<lparr>events := events (snd (rcp (debited a m s))) @ [Withdraw a m]\<rparr>))
        \<and> (rcp (debited a m s) = (True, debited a m s) \<longrightarrow>
             (\<exists>s'. withdraw a m rcp s = Inr s'
                \<and> unat (balances s' a) + unat m = unat (balances s a)
                \<and> unat (totalAssets s') + unat m = unat (totalAssets s)
                \<and> (\<forall>b. b \<noteq> a \<longrightarrow> balances s' b = balances s b))))"
proof (intro conjI impI)
  assume v: "0 < v \<and> unat (totalAssets s) + unat v < 2 ^ 256"
  have "unat (balances s a) \<le> unat (totalAssets s)"
    using balance_le_sum [of s a] reachable_sum [OF assms(1)] by simp
  with v have b: "unat (balances s a) + unat v < 2 ^ 256" by simp
  show "\<exists>s'. deposit \<lparr>msg_sender = a, msg_value = v\<rparr> s = Inr s'
           \<and> unat (balances s' a) = unat (balances s a) + unat v
           \<and> unat (totalAssets s') = unat (totalAssets s) + unat v
           \<and> (\<forall>b. b \<noteq> a \<longrightarrow> balances s' b = balances s b)"
    using assms(2) v b
    by (simp add: deposit_def notPaused_def deposit_body_def checked_add_def unat_add_256)
next
  assume m: "0 < m \<and> m \<le> balances s a"
  have "balances s a \<le> totalAssets s"
    using assms(1) by (rule reachable_balance_le_total)
  with m have t: "m \<le> totalAssets s" by (blast intro: order_trans)
  from m have pos: "0 < m" and le: "m \<le> balances s a" by simp_all
  note at = withdraw_at_transfer [OF assms(2) pos le t, of rcp]
  show bal: "unat (balances (debited a m s) a) + unat m = unat (balances s a)"
    and tot: "unat (totalAssets (debited a m s)) + unat m = unat (totalAssets s)"
    using le t by (rule debited_ledger)+
  show oth: "\<forall>b. b \<noteq> a \<longrightarrow> balances (debited a m s) b = balances s b"
    using debited_ledger(3) [OF le t] by blast
  {
    assume "\<not> fst (rcp (debited a m s))"
    with at show "withdraw a m rcp s = Inl ETH_TRANSFER_FAILED" by simp
    then show "after s (withdraw a m rcp s) = s" by (simp add: after_def)
  }
  {
    assume "fst (rcp (debited a m s))"
    with at show "withdraw a m rcp s =
               Inr ((snd (rcp (debited a m s)))
                      \<lparr>events := events (snd (rcp (debited a m s))) @ [Withdraw a m]\<rparr>)"
      by simp
  }
  {
    assume "rcp (debited a m s) = (True, debited a m s)"
    with at have "withdraw a m rcp s =
        Inr ((debited a m s)\<lparr>events := events (debited a m s) @ [Withdraw a m]\<rparr>)"
      by simp
    with bal tot oth show "\<exists>s'. withdraw a m rcp s = Inr s'
                \<and> unat (balances s' a) + unat m = unat (balances s a)
                \<and> unat (totalAssets s') + unat m = unat (totalAssets s)
                \<and> (\<forall>b. b \<noteq> a \<longrightarrow> balances s' b = balances s b)"
      by simp
  }
qed

theorem deposit_withdraw_accounting_witness:
  "reachable funded_vault \<and> \<not> paused funded_vault
   \<and> (0::uint256) < 2 \<and> unat (totalAssets funded_vault) + unat (2::uint256) < 2 ^ 256
   \<and> (\<exists>s'. deposit \<lparr>msg_sender = 7, msg_value = 2\<rparr> funded_vault = Inr s'
         \<and> unat (balances s' 7) = 7 \<and> unat (totalAssets s') = 7 \<and> balances s' 8 = 0)
   \<and> (0::uint256) < 3 \<and> 3 \<le> balances funded_vault 7
   \<and> unat (balances (debited 7 3 funded_vault) 7) + 3 = 5
   \<and> unat (totalAssets (debited 7 3 funded_vault)) + 3 = 5
   \<and> accepts (debited 7 3 funded_vault) = (True, debited 7 3 funded_vault)
   \<and> (\<exists>s'. withdraw 7 3 accepts funded_vault = Inr s'
         \<and> unat (balances s' 7) + 3 = 5 \<and> unat (totalAssets s') + 3 = 5 \<and> balances s' 8 = 0)
   \<and> \<not> fst (rejects (debited 7 3 funded_vault))
   \<and> after funded_vault (withdraw 7 3 rejects funded_vault) = funded_vault
   \<and> fst (withdraws_2_more (debited 7 3 funded_vault))
   \<and> withdraw 7 3 withdraws_2_more funded_vault =
        Inr ((snd (withdraws_2_more (debited 7 3 funded_vault)))
               \<lparr>events := events (snd (withdraws_2_more (debited 7 3 funded_vault)))
                            @ [Withdraw 7 3]\<rparr>)"
proof -
  have np: "\<not> paused funded_vault" by (simp add: funded_vault_def)
  have h: "(0::uint256) < 2 \<and> unat (totalAssets funded_vault) + unat (2::uint256) < 2 ^ 256"
    "(0::uint256) < 3 \<and> 3 \<le> balances funded_vault 7"
    by (simp_all add: funded_vault_def)
  have v: "unat (balances funded_vault 7) = 5" "unat (totalAssets funded_vault) = 5"
    "balances funded_vault 8 = 0"
    by (simp_all add: funded_vault_def)
  have r: "accepts (debited 7 3 funded_vault) = (True, debited 7 3 funded_vault)"
    "\<not> fst (rejects (debited 7 3 funded_vault))"
    "fst (withdraws_2_more (debited 7 3 funded_vault))"
    by (simp_all add: accepts_def rejects_def withdraws_2_more_at)
  note general = deposit_withdraw_accounting [OF reachable_funded_vault np]
  have 1: "\<exists>s'. deposit \<lparr>msg_sender = 7, msg_value = 2\<rparr> funded_vault = Inr s'
         \<and> unat (balances s' 7) = 7 \<and> unat (totalAssets s') = 7 \<and> balances s' 8 = 0"
    using general [of 2 7 3 accepts] h v by (auto simp del: One_nat_def)
  have 2: "unat (balances (debited 7 3 funded_vault) 7) + 3 = 5"
    "unat (totalAssets (debited 7 3 funded_vault)) + 3 = 5"
    using general [of 2 7 3 accepts] h v by simp_all
  have 3: "\<exists>s'. withdraw 7 3 accepts funded_vault = Inr s'
         \<and> unat (balances s' 7) + 3 = 5 \<and> unat (totalAssets s') + 3 = 5 \<and> balances s' 8 = 0"
    using general [of 2 7 3 accepts] h v r(1) by (auto simp del: One_nat_def)
  have 4: "after funded_vault (withdraw 7 3 rejects funded_vault) = funded_vault"
    using general [of 2 7 3 rejects] h r(2) by blast
  have 5: "withdraw 7 3 withdraws_2_more funded_vault =
        Inr ((snd (withdraws_2_more (debited 7 3 funded_vault)))
               \<lparr>events := events (snd (withdraws_2_more (debited 7 3 funded_vault)))
                            @ [Withdraw 7 3]\<rparr>)"
    using general [of 2 7 3 withdraws_2_more] h r(3) by blast
  show ?thesis
    using reachable_funded_vault np h r 1 2 3 4 5 by blast
qed

section \<open>The pause flag\<close>

text \<open>
  C2. The pause flag is the one control on the deposit and withdraw path. In every
  state where \<open>paused\<close> is true, \<^verbatim>\<open>deposit()\<close> and \<^verbatim>\<open>withdraw(amount)\<close> both revert
  with \<^verbatim>\<open>VAULT_PAUSED\<close> and the whole storage, the event log included, stays as it
  was. In every state where \<open>paused\<close> is false the flag restricts neither: each call
  does exactly what its body does, and never reverts with \<^verbatim>\<open>VAULT_PAUSED\<close>.
\<close>

theorem pause_flag_gates_deposit_withdraw:
  "(paused s \<longrightarrow>
      deposit m s = Inl VAULT_PAUSED \<and> withdraw a n rcp s = Inl VAULT_PAUSED
      \<and> after s (deposit m s) = s \<and> after s (withdraw a n rcp s) = s)
   \<and> (\<not> paused s \<longrightarrow>
      deposit m s = deposit_body m s \<and> withdraw a n rcp s = withdraw_body a n rcp s
      \<and> deposit m s \<noteq> Inl VAULT_PAUSED \<and> withdraw a n rcp s \<noteq> Inl VAULT_PAUSED)"
proof (intro conjI impI)
  assume p: "paused s"
  then show "deposit m s = Inl VAULT_PAUSED" and "withdraw a n rcp s = Inl VAULT_PAUSED"
    by (simp_all add: deposit_def withdraw_def notPaused_def)
  then show "after s (deposit m s) = s" and "after s (withdraw a n rcp s) = s"
    by (simp_all add: after_def)
next
  assume np: "\<not> paused s"
  then show d: "deposit m s = deposit_body m s"
    and w: "withdraw a n rcp s = withdraw_body a n rcp s"
    by (simp_all add: deposit_def withdraw_def notPaused_def)
  show "deposit m s \<noteq> Inl VAULT_PAUSED"
    unfolding d
    by (auto simp: deposit_body_def checked_add_def split: sum.splits if_splits)
  show "withdraw a n rcp s \<noteq> Inl VAULT_PAUSED"
    unfolding w
    by (auto simp: withdraw_body_def checked_sub_def split: sum.splits if_splits prod.splits)
qed

theorem pause_flag_gates_deposit_withdraw_witness:
  "paused paused_vault
   \<and> deposit \<lparr>msg_sender = 7, msg_value = 2\<rparr> paused_vault = Inl VAULT_PAUSED
   \<and> withdraw 7 3 accepts paused_vault = Inl VAULT_PAUSED
   \<and> after paused_vault (withdraw 7 3 accepts paused_vault) = paused_vault
   \<and> \<not> paused funded_vault
   \<and> withdraw 7 3 accepts funded_vault = withdraw_body 7 3 accepts funded_vault
   \<and> withdraw 7 3 accepts funded_vault \<noteq> Inl VAULT_PAUSED"
proof -
  have p: "paused paused_vault" by (simp add: paused_vault_def)
  have np: "\<not> paused funded_vault" by (simp add: funded_vault_def)
  show ?thesis
    using pause_flag_gates_deposit_withdraw [of paused_vault "\<lparr>msg_sender = 7, msg_value = 2\<rparr>" 7 3 accepts]
      pause_flag_gates_deposit_withdraw [of funded_vault "\<lparr>msg_sender = 7, msg_value = 2\<rparr>" 7 3 accepts]
      p np
    by blast
qed

section \<open>When deposit and withdraw revert\<close>

text \<open>
  C3, as stated, fails: \<^verbatim>\<open>withdraw\<close> has revert conditions besides an insufficient
  balance and a failed transfer. In \<open>paused_vault\<close> address 7 holds 5 wei and withdraws
  3 to a recipient that accepts: the call reverts with \<^verbatim>\<open>VAULT_PAUSED\<close>. In
  \<open>funded_vault\<close>, not paused, the same address withdraws 0: the call reverts with
  \<^verbatim>\<open>ZERO_WITHDRAW\<close>. In neither is the balance below the amount.
\<close>

theorem withdraw_other_reverts_counterexample:
  "withdraw 7 3 accepts paused_vault = Inl VAULT_PAUSED
   \<and> \<not> balances paused_vault 7 < 3
   \<and> withdraw 7 0 accepts funded_vault = Inl ZERO_WITHDRAW
   \<and> \<not> balances funded_vault 7 < 0"
  by (simp add: paused_vault_def funded_vault_def withdraw_def notPaused_def withdraw_body_def)

text \<open>
  C3, amended. \<^verbatim>\<open>withdraw(amount)\<close> reverts if and only if the vault is paused, or
  the amount is zero, or the caller's balance is below the amount, or the total is
  below the amount (the checked subtraction), or the outgoing transfer, made on the
  storage with the amount taken off, fails. \<^verbatim>\<open>deposit()\<close> reverts if and only if the
  vault is paused, or the value is zero, or one of its two checked additions
  overflows. There is no other revert condition on the deposit and withdraw path.
\<close>

theorem deposit_withdraw_revert_conditions:
  "(isl (withdraw a n rcp s) \<longleftrightarrow>
      paused s \<or> n = 0 \<or> balances s a < n \<or> totalAssets s < n
      \<or> \<not> fst (rcp (debited a n s)))
   \<and> (isl (deposit m s) \<longleftrightarrow>
      paused s \<or> msg_value m = 0
      \<or> 2 ^ 256 \<le> unat (balances s (msg_sender m)) + unat (msg_value m)
      \<or> 2 ^ 256 \<le> unat (totalAssets s) + unat (msg_value m))"
proof
  show "isl (withdraw a n rcp s) \<longleftrightarrow>
      paused s \<or> n = 0 \<or> balances s a < n \<or> totalAssets s < n
      \<or> \<not> fst (rcp (debited a n s))"
  proof (cases "\<not> paused s \<and> 0 < n \<and> n \<le> balances s a \<and> n \<le> totalAssets s")
    case True
    then have "withdraw a n rcp s =
       (if fst (rcp (debited a n s))
        then Inr ((snd (rcp (debited a n s)))
                    \<lparr>events := events (snd (rcp (debited a n s))) @ [Withdraw a n]\<rparr>)
        else Inl ETH_TRANSFER_FAILED)"
      by (simp add: withdraw_at_transfer)
    with True show ?thesis by (auto simp: word_greater_zero_iff)
  next
    case False
    then have "isl (withdraw a n rcp s)"
      by (auto simp: withdraw_def notPaused_def withdraw_body_def checked_sub_def
            word_greater_zero_iff split: sum.splits if_splits)
    with False show ?thesis by (auto simp: word_greater_zero_iff)
  qed
  show "isl (deposit m s) \<longleftrightarrow>
      paused s \<or> msg_value m = 0
      \<or> 2 ^ 256 \<le> unat (balances s (msg_sender m)) + unat (msg_value m)
      \<or> 2 ^ 256 \<le> unat (totalAssets s) + unat (msg_value m)"
    by (auto simp: deposit_def notPaused_def deposit_body_def checked_add_def
          word_greater_zero_iff split: sum.splits if_splits)
qed

theorem deposit_withdraw_revert_conditions_witness:
  "isl (withdraw 7 3 rejects funded_vault) \<and> \<not> isl (withdraw 7 3 accepts funded_vault)
   \<and> isl (withdraw 7 6 accepts funded_vault) \<and> isl (withdraw 7 3 accepts paused_vault)
   \<and> isl (deposit \<lparr>msg_sender = 7, msg_value = 0\<rparr> funded_vault)
   \<and> \<not> isl (deposit \<lparr>msg_sender = 7, msg_value = 2\<rparr> funded_vault)"
  using deposit_withdraw_revert_conditions [of 7 3 rejects funded_vault "\<lparr>msg_sender = 7, msg_value = 0\<rparr>"]
    deposit_withdraw_revert_conditions [of 7 3 accepts funded_vault "\<lparr>msg_sender = 7, msg_value = 2\<rparr>"]
    deposit_withdraw_revert_conditions [of 7 6 accepts funded_vault "\<lparr>msg_sender = 7, msg_value = 2\<rparr>"]
    deposit_withdraw_revert_conditions [of 7 3 accepts paused_vault "\<lparr>msg_sender = 7, msg_value = 2\<rparr>"]
  by (simp add: funded_vault_def paused_vault_def accepts_def rejects_def)

section \<open>Who may pause\<close>

text \<open>
  C4. For every caller, \<^verbatim>\<open>setPaused(b)\<close> succeeds, and then sets \<open>paused\<close> to \<open>b\<close>,
  exactly when the caller is the owner or the guardian; the call of anyone else
  reverts with \<^verbatim>\<open>NOT_AUTHORIZED\<close> and the storage stays as it was.
\<close>

theorem setPaused_authorized:
  "((\<exists>s'. setPaused c b s = Inr s' \<and> paused s' = b) \<longleftrightarrow> (c = owner s \<or> c = guardian s))
   \<and> (\<not> (c = owner s \<or> c = guardian s) \<longrightarrow>
        setPaused c b s = Inl NOT_AUTHORIZED \<and> after s (setPaused c b s) = s)"
proof (cases "c = owner s \<or> c = guardian s")
  case True
  then have "setPaused c b s = Inr (s\<lparr>paused := b, events := events s @ [Paused b]\<rparr>)"
    by (simp add: setPaused_def onlyGuardianOrOwner_def)
  with True show ?thesis by simp
next
  case False
  then have "setPaused c b s = Inl NOT_AUTHORIZED"
    by (simp add: setPaused_def onlyGuardianOrOwner_def)
  with False show ?thesis by (simp add: after_def)
qed

theorem setPaused_authorized_witness:
  "\<not> (3 = owner funded_vault \<or> 3 = guardian funded_vault)
   \<and> setPaused 3 True funded_vault = Inl NOT_AUTHORIZED
   \<and> after funded_vault (setPaused 3 True funded_vault) = funded_vault
   \<and> (\<exists>s'. setPaused 2 True funded_vault = Inr s' \<and> paused s' = True)
   \<and> (\<exists>s'. setPaused 1 True funded_vault = Inr s' \<and> paused s' = True)"
proof -
  have h: "\<not> (3 = owner funded_vault \<or> 3 = guardian funded_vault)"
    "2 = guardian funded_vault" "1 = owner funded_vault"
    by (simp_all add: funded_vault_def)
  show ?thesis
    using setPaused_authorized [of 3 True funded_vault]
      setPaused_authorized [of 2 True funded_vault]
      setPaused_authorized [of 1 True funded_vault] h
    by blast
qed

section \<open>Admin calls leave the ledger alone\<close>

text \<open>
  C7. The ledger is the mapping \<open>balances\<close> and the total. In every state, and for
  every caller and argument, \<^verbatim>\<open>setPaused\<close>, \<^verbatim>\<open>setGuardian\<close> and \<^verbatim>\<open>setOwner\<close>
  leave \<open>balances\<close> and \<open>totalAssets\<close> as they were, whether the call succeeds or
  reverts; \<^verbatim>\<open>receive\<close> is \<^verbatim>\<open>deposit\<close>. So of the six entry points only \<^verbatim>\<open>deposit\<close>
  and \<^verbatim>\<open>withdraw\<close> (and \<^verbatim>\<open>receive\<close> through \<^verbatim>\<open>deposit\<close>) write the ledger.
\<close>

theorem admin_calls_frame:
  "balances (after s (setPaused c p s)) = balances s
   \<and> totalAssets (after s (setPaused c p s)) = totalAssets s
   \<and> balances (after s (setGuardian c g s)) = balances s
   \<and> totalAssets (after s (setGuardian c g s)) = totalAssets s
   \<and> balances (after s (setOwner c n s)) = balances s
   \<and> totalAssets (after s (setOwner c n s)) = totalAssets s
   \<and> exec (CallReceive m) s = exec (CallDeposit m) s"
  by (simp add: after_def setPaused_def setGuardian_def setOwner_def onlyOwner_def
        onlyGuardianOrOwner_def receive_def)

theorem admin_calls_frame_witness:
  "balances (after funded_vault (setPaused 1 True funded_vault)) 7 = 5
   \<and> paused (after funded_vault (setPaused 1 True funded_vault))
   \<and> totalAssets (after funded_vault (setGuardian 1 9 funded_vault)) = 5
   \<and> guardian (after funded_vault (setGuardian 1 9 funded_vault)) = 9
   \<and> balances (after funded_vault (setOwner 1 9 funded_vault)) 7 = 5
   \<and> owner (after funded_vault (setOwner 1 9 funded_vault)) = 9
   \<and> totalAssets (after funded_vault (setOwner 3 9 funded_vault)) = 5
   \<and> owner (after funded_vault (setOwner 3 9 funded_vault)) = 1"
proof -
  have b: "balances funded_vault 7 = 5" "totalAssets funded_vault = 5"
    by (simp_all add: funded_vault_def)
  have c: "paused (after funded_vault (setPaused 1 True funded_vault))"
    "guardian (after funded_vault (setGuardian 1 9 funded_vault)) = 9"
    "owner (after funded_vault (setOwner 1 9 funded_vault)) = 9"
    "owner (after funded_vault (setOwner 3 9 funded_vault)) = 1"
    by (simp_all add: funded_vault_def after_def setPaused_def setGuardian_def setOwner_def
          onlyOwner_def onlyGuardianOrOwner_def)
  show ?thesis
    using admin_calls_frame [of funded_vault 1 True 9 9]
      admin_calls_frame [of funded_vault 3 True 9 9] b c
    by simp
qed

section \<open>The total equals the sum of the balances\<close>

text \<open>
  C8. In every state reachable from the constructor by successful calls of
  \<^verbatim>\<open>deposit\<close>, \<^verbatim>\<open>withdraw\<close>, \<^verbatim>\<open>receive\<close>, \<^verbatim>\<open>setPaused\<close>, \<^verbatim>\<open>setGuardian\<close> and
  \<^verbatim>\<open>setOwner\<close>, in any order, \<open>totalAssets\<close> equals the sum of \<open>balances[a]\<close> over
  all addresses \<open>a\<close>. The sum is taken in the natural numbers, so the equation also
  says that the sum fits in a \<^verbatim>\<open>uint256\<close>.
\<close>

theorem totalAssets_is_sum_of_balances:
  "reachable s \<Longrightarrow> unat (totalAssets s) = (\<Sum>a\<in>UNIV. unat (balances s a))"
proof (induction rule: reachable.induct)
  case (deployed d g)
  show ?case by (simp add: constructor_def)
next
  case (called s c s')
  then have "unat (totalAssets s) = sum_balances s" by (simp add: sum_balances_def)
  with called.hyps(2) have "unat (totalAssets s') = sum_balances s'" by (rule exec_sum)
  then show ?case by (simp add: sum_balances_def)
qed

theorem totalAssets_is_sum_of_balances_witness:
  "reachable paused_vault
   \<and> (\<Sum>a\<in>UNIV. unat (balances paused_vault a)) = 5"
proof -
  have "unat (totalAssets paused_vault) = 5" by (simp add: paused_vault_def)
  then show ?thesis
    using totalAssets_is_sum_of_balances [OF reachable_paused_vault] reachable_paused_vault
    by simp
qed

section \<open>Plain transfers are deposits\<close>

text \<open>
  C9. Sending plain ether to the contract, which runs \<^verbatim>\<open>receive\<close>, has exactly the
  effect of calling \<^verbatim>\<open>deposit()\<close> with the same sender and value: the same result,
  that is the same new storage with the same \<^verbatim>\<open>Deposit\<close> event at the end of the
  log, or the same revert. In particular it reverts on a zero value, and the
  pause-aware contract reverts when paused. This holds for the pause-aware contract
  and for the stub, whose \<^verbatim>\<open>receive\<close> is read as the internal call it writes.
\<close>

theorem receive_is_deposit:
  "receive m s = deposit m s
   \<and> (paused s \<longrightarrow> receive m s = Inl VAULT_PAUSED)
   \<and> (\<not> paused s \<and> msg_value m = 0 \<longrightarrow> receive m s = Inl ZERO_DEPOSIT)
   \<and> (\<forall>s'. receive m s = Inr s' \<longrightarrow>
        events s' = events s @ [Deposit (msg_sender m) (msg_value m)])
   \<and> receive_stub m u = deposit_stub m u
   \<and> (msg_value m = 0 \<longrightarrow> receive_stub m u = Inl ZERO)
   \<and> (\<forall>u'. receive_stub m u = Inr u' \<longrightarrow>
        events_stub u' = events_stub u @ [Deposit (msg_sender m) (msg_value m)])"
proof (intro conjI impI allI)
  show "receive m s = deposit m s" by (simp add: receive_def)
  show "receive_stub m u = deposit_stub m u" by (simp add: receive_stub_def)
next
  assume "paused s"
  then show "receive m s = Inl VAULT_PAUSED"
    by (simp add: receive_def deposit_def notPaused_def)
next
  assume "\<not> paused s \<and> msg_value m = 0"
  then show "receive m s = Inl ZERO_DEPOSIT"
    by (simp add: receive_def deposit_def notPaused_def deposit_body_def)
next
  fix s' assume "receive m s = Inr s'"
  then have "deposit m s = Inr s'" by (simp add: receive_def)
  from deposit_Inr [OF this]
  show "events s' = events s @ [Deposit (msg_sender m) (msg_value m)]" by simp
next
  assume "msg_value m = 0"
  then show "receive_stub m u = Inl ZERO"
    by (simp add: receive_stub_def deposit_stub_def)
next
  fix u' assume "receive_stub m u = Inr u'"
  then show "events_stub u' = events_stub u @ [Deposit (msg_sender m) (msg_value m)]"
    by (auto simp: receive_stub_def deposit_stub_def checked_add_def
          split: if_splits sum.splits)
qed

theorem receive_is_deposit_witness:
  "paused paused_vault
   \<and> receive \<lparr>msg_sender = 7, msg_value = 2\<rparr> paused_vault = Inl VAULT_PAUSED
   \<and> \<not> paused funded_vault
   \<and> receive \<lparr>msg_sender = 7, msg_value = 0\<rparr> funded_vault = Inl ZERO_DEPOSIT
   \<and> receive_stub \<lparr>msg_sender = 7, msg_value = 0\<rparr> funded_stub = Inl ZERO
   \<and> receive \<lparr>msg_sender = 7, msg_value = 5\<rparr> (constructor 1 2) = Inr funded_vault
   \<and> events funded_vault = events (constructor 1 2) @ [Deposit 7 5]
   \<and> receive_stub \<lparr>msg_sender = 7, msg_value = 5\<rparr> (constructor_stub 1) = Inr funded_stub
   \<and> events_stub funded_stub = events_stub (constructor_stub 1) @ [Deposit 7 5]"
proof -
  have p: "paused paused_vault" "\<not> paused funded_vault"
    by (simp_all add: paused_vault_def funded_vault_def)
  have d: "deposit \<lparr>msg_sender = 7, msg_value = 5\<rparr> (constructor 1 2) = Inr funded_vault"
    using funded_vault_step by simp
  note at_paused =
    receive_is_deposit [of "\<lparr>msg_sender = 7, msg_value = 2\<rparr>" paused_vault funded_stub, simplified]
  note at_zero =
    receive_is_deposit [of "\<lparr>msg_sender = 7, msg_value = 0\<rparr>" funded_vault funded_stub, simplified]
  note at_five =
    receive_is_deposit [of "\<lparr>msg_sender = 7, msg_value = 5\<rparr>" "constructor 1 2"
      "constructor_stub 1", simplified]
  have 1: "receive \<lparr>msg_sender = 7, msg_value = 2\<rparr> paused_vault = Inl VAULT_PAUSED"
    using at_paused p(1) by blast
  have 2: "receive \<lparr>msg_sender = 7, msg_value = 0\<rparr> funded_vault = Inl ZERO_DEPOSIT"
    using at_zero p(2) by blast
  have 3: "receive_stub \<lparr>msg_sender = 7, msg_value = 0\<rparr> funded_stub = Inl ZERO"
    using at_zero by blast
  have 4: "receive \<lparr>msg_sender = 7, msg_value = 5\<rparr> (constructor 1 2) = Inr funded_vault"
    using at_five d by metis
  have 5: "events funded_vault = events (constructor 1 2) @ [Deposit 7 5]"
    using at_five 4 by blast
  have 6: "receive_stub \<lparr>msg_sender = 7, msg_value = 5\<rparr> (constructor_stub 1) = Inr funded_stub"
    using at_five funded_stub_step by metis
  have 7: "events_stub funded_stub = events_stub (constructor_stub 1) @ [Deposit 7 5]"
    using at_five 6 by blast
  show ?thesis using p 1 2 3 4 5 6 7 by blast
qed

section \<open>Reading the public environment\<close>












lemma spec_first_None:
  "(\<forall>v\<in>set vs. \<not> is_nonempty_string v) \<Longrightarrow> spec_first_nonempty_string vs = None"
  by (induction vs rule: spec_first_nonempty_string.induct) simp_all








section \<open>The withdraw action\<close>

lemma bigint_div_nonneg: "0 \<le> a \<Longrightarrow> bigint_div a 100 = a div 100"
  by (cases "a = 0") (simp_all add: bigint_div_def)

lemma percent_of_shares_le:
  fixes s pct :: int
  assumes "0 < s" and "1 \<le> pct" and "pct \<le> 100"
  shows "0 \<le> s * pct" and "(s * pct) div 100 \<le> s"
proof -
  show "0 \<le> s * pct" using assms by simp
  have "s * pct \<le> s * 100" using assms by (intro mult_left_mono) simp_all
  then have "(s * pct) div 100 \<le> (s * 100) div 100" by (rule zdiv_mono1) simp
  then show "(s * pct) div 100 \<le> s" by simp
qed

text \<open>
  C5. For a connected user (a wallet client and an address are set, and the vault and
  token addresses are configured, without which no share balance is ever loaded) with
  share balance \<open>s > 0\<close> and a slider percentage between 1 and 100, the withdraw
  action issues exactly one contract call, the vault's \<^verbatim>\<open>redeem\<close> with
  \<open>\<lfloor>s * p / 100\<rfloor>\<close> shares, the user being receiver and owner; that number is at least
  0 and at most \<open>s\<close>. When the share balance is 0 or undefined the action has no
  effect at all, so it issues no contract call.
\<close>

theorem onWithdraw_redeems_percentage:
  "(wallet p \<and> address p = Some account \<and> account \<noteq> [] \<and> hasConfig c
      \<and> userShares p = Some s \<and> 0 < s \<and> 1 \<le> withdrawPct p \<and> withdrawPct p \<le> 100 \<longrightarrow>
      contract_calls (onWithdraw c p redeem_ok) =
        [WriteRedeem account (VAULT_ADDR c) ((s * withdrawPct p) div 100) account account]
      \<and> 0 \<le> (s * withdrawPct p) div 100 \<and> (s * withdrawPct p) div 100 \<le> s)
   \<and> (userShares p = None \<or> userShares p = Some 0 \<longrightarrow>
      onWithdraw c p redeem_ok = ([], Returned)
      \<and> contract_calls (onWithdraw c p redeem_ok) = [])"
proof (intro conjI impI)
  assume h: "wallet p \<and> address p = Some account \<and> account \<noteq> [] \<and> hasConfig c
      \<and> userShares p = Some s \<and> 0 < s \<and> 1 \<le> withdrawPct p \<and> withdrawPct p \<le> 100"
  then have nn: "0 \<le> s * withdrawPct p" and le: "(s * withdrawPct p) div 100 \<le> s"
    using percent_of_shares_le [of s "withdrawPct p"] by simp_all
  from h have guard: "connected p" "\<not> not_userShares p"
    by (simp_all add: connected_def not_userShares_def)
  show "contract_calls (onWithdraw c p redeem_ok) =
        [WriteRedeem account (VAULT_ADDR c) ((s * withdrawPct p) div 100) account account]"
    using h guard by (simp add: onWithdraw_def contract_calls_def bigint_div_nonneg [OF nn])
  show "(s * withdrawPct p) div 100 \<le> s" by (rule le)
  show "0 \<le> (s * withdrawPct p) div 100" using nn by simp
next
  assume "userShares p = None \<or> userShares p = Some 0"
  then have "not_userShares p" by (auto simp: not_userShares_def)
  then show "onWithdraw c p redeem_ok = ([], Returned)" by (simp add: onWithdraw_def)
  then show "contract_calls (onWithdraw c p redeem_ok) = []" by (simp add: contract_calls_def)
qed

theorem onWithdraw_redeems_percentage_witness:
  "wallet example_page \<and> address example_page = Some ''0xuser'' \<and> hasConfig example_config
   \<and> userShares example_page = Some 200 \<and> withdrawPct example_page = 25
   \<and> contract_calls (onWithdraw example_config example_page True) =
        [WriteRedeem ''0xuser'' ''0xvault'' 50 ''0xuser'' ''0xuser'']
   \<and> userShares (example_page\<lparr>userShares := Some 0\<rparr>) = Some 0
   \<and> onWithdraw example_config (example_page\<lparr>userShares := Some 0\<rparr>) True = ([], Returned)
   \<and> userShares (example_page\<lparr>userShares := None\<rparr>) = None
   \<and> contract_calls (onWithdraw example_config (example_page\<lparr>userShares := None\<rparr>) True) = []"
proof -
  have h: "wallet example_page" "address example_page = Some ''0xuser''" "''0xuser'' \<noteq> []"
    "hasConfig example_config" "userShares example_page = Some 200" "(0::int) < 200"
    "withdrawPct example_page = 25" "VAULT_ADDR example_config = ''0xvault''"
    by (simp_all add: example_page_def example_config_def hasConfig_def)
  have z: "userShares (example_page\<lparr>userShares := Some 0\<rparr>) = Some 0"
    "userShares (example_page\<lparr>userShares := None\<rparr>) = None"
    by simp_all
  have 1: "contract_calls (onWithdraw example_config example_page True) =
        [WriteRedeem ''0xuser'' ''0xvault'' 50 ''0xuser'' ''0xuser'']"
    using onWithdraw_redeems_percentage [of example_page "''0xuser''" example_config 200 True] h
    by simp
  have 2: "onWithdraw example_config (example_page\<lparr>userShares := Some 0\<rparr>) True = ([], Returned)"
    using onWithdraw_redeems_percentage [of "example_page\<lparr>userShares := Some 0\<rparr>" _ example_config _ True] z
    by blast
  have 3: "contract_calls (onWithdraw example_config (example_page\<lparr>userShares := None\<rparr>) True) = []"
    using onWithdraw_redeems_percentage [of "example_page\<lparr>userShares := None\<rparr>" _ example_config _ True] z
    by blast
  show ?thesis using h z 1 2 3 by blast
qed

section \<open>The deposit action\<close>

text \<open>
  C6, as stated, fails: the deposit is not always issued after the allowance check.
  On the example page the allowance read returns 0, below the 1000000000 units to
  deposit, so \<^verbatim>\<open>approve\<close> is issued; the wallet rejects it, the awaited call throws,
  and the action ends with the two calls it has made: the vault's \<^verbatim>\<open>deposit\<close> is
  never called.
\<close>

theorem onDeposit_rejected_approve_counterexample:
  "onDeposit parseUnits_example example_config example_page (Some 0) False True =
     ([SetBusy True,
       ReadAllowance ''0xusdc'' ''0xuser'' ''0xvault'',
       WriteApprove ''0xuser'' ''0xusdc'' ''0xvault'' 1000000000,
       SetBusy False], Threw)
   \<and> \<not> list_ex is_deposit
         (contract_calls (onDeposit parseUnits_example example_config example_page (Some 0) False True))"
  by (simp add: onDeposit_def example_config_def example_page_def parseUnits_example_def
        hasConfig_def connected_def contract_calls_def)

text \<open>
  C6, amended. Once its guard has passed (wallet client, address and configuration
  are there) and the amount has parsed, the deposit action first reads the user's
  allowance for the vault; when the read returns, it calls \<^verbatim>\<open>approve(vault, assets)\<close>
  if and only if the allowance is strictly less than the parsed amount, and then
  calls the vault's \<^verbatim>\<open>deposit(assets, account)\<close> unless an \<^verbatim>\<open>approve\<close> it has
  issued was rejected, in which case it throws without calling \<^verbatim>\<open>deposit\<close>. For
  every input, \<^verbatim>\<open>approve\<close> is issued only for an allowance below the parsed amount,
  and no \<^verbatim>\<open>deposit\<close> is issued before the allowance read.
\<close>

theorem onDeposit_check_approve_deposit:
  "(wallet p \<and> address p = Some account \<and> account \<noteq> [] \<and> hasConfig c
      \<and> parseUnits (if amount p \<noteq> [] then amount p else ''0'') (decimals p) = Some n
      \<and> allowance = Some al \<longrightarrow>
      contract_calls (onDeposit parseUnits c p allowance approve_ok deposit_ok) =
        [ReadAllowance (USDC_ADDR c) account (VAULT_ADDR c)]
        @ (if al < n then [WriteApprove account (USDC_ADDR c) (VAULT_ADDR c) n] else [])
        @ (if al < n \<and> \<not> approve_ok then [] else [WriteDeposit account (VAULT_ADDR c) n account])
      \<and> snd (onDeposit parseUnits c p allowance approve_ok deposit_ok) =
        (if al < n \<and> \<not> approve_ok then Threw else if deposit_ok then Returned else Threw))
   \<and> (list_ex is_approve (fst (onDeposit parseUnits c p allowance approve_ok deposit_ok)) \<longrightarrow>
        (\<exists>al n. allowance = Some al
           \<and> parseUnits (if amount p \<noteq> [] then amount p else ''0'') (decimals p) = Some n
           \<and> al < n))
   \<and> deposit_after_read False (fst (onDeposit parseUnits c p allowance approve_ok deposit_ok))"
proof (intro conjI impI)
  assume h: "wallet p \<and> address p = Some account \<and> account \<noteq> [] \<and> hasConfig c
      \<and> parseUnits (if amount p \<noteq> [] then amount p else ''0'') (decimals p) = Some n
      \<and> allowance = Some al"
  then have "connected p" by (simp add: connected_def)
  with h show "contract_calls (onDeposit parseUnits c p allowance approve_ok deposit_ok) =
        [ReadAllowance (USDC_ADDR c) account (VAULT_ADDR c)]
        @ (if al < n then [WriteApprove account (USDC_ADDR c) (VAULT_ADDR c) n] else [])
        @ (if al < n \<and> \<not> approve_ok then [] else [WriteDeposit account (VAULT_ADDR c) n account])"
    by (simp add: onDeposit_def contract_calls_def Let_def)
  from h \<open>connected p\<close>
  show "snd (onDeposit parseUnits c p allowance approve_ok deposit_ok) =
        (if al < n \<and> \<not> approve_ok then Threw else if deposit_ok then Returned else Threw)"
    by (simp add: onDeposit_def Let_def)
next
  assume "list_ex is_approve (fst (onDeposit parseUnits c p allowance approve_ok deposit_ok))"
  then show "\<exists>al n. allowance = Some al
           \<and> parseUnits (if amount p \<noteq> [] then amount p else ''0'') (decimals p) = Some n
           \<and> al < n"
    by (auto simp: onDeposit_def Let_def split: if_splits option.splits)
next
  show "deposit_after_read False (fst (onDeposit parseUnits c p allowance approve_ok deposit_ok))"
    by (simp add: onDeposit_def Let_def split: option.splits)
qed

theorem onDeposit_check_approve_deposit_witness:
  "wallet example_page \<and> address example_page = Some ''0xuser'' \<and> hasConfig example_config
   \<and> parseUnits_example (if amount example_page \<noteq> [] then amount example_page else ''0'')
        (decimals example_page) = Some 1000000000
   \<and> contract_calls (onDeposit parseUnits_example example_config example_page (Some 0) True True) =
       [ReadAllowance ''0xusdc'' ''0xuser'' ''0xvault'',
        WriteApprove ''0xuser'' ''0xusdc'' ''0xvault'' 1000000000,
        WriteDeposit ''0xuser'' ''0xvault'' 1000000000 ''0xuser'']
   \<and> contract_calls (onDeposit parseUnits_example example_config example_page (Some 1000000000) True True) =
       [ReadAllowance ''0xusdc'' ''0xuser'' ''0xvault'',
        WriteDeposit ''0xuser'' ''0xvault'' 1000000000 ''0xuser'']
   \<and> list_ex is_approve (fst (onDeposit parseUnits_example example_config example_page (Some 0) True True))
   \<and> deposit_after_read False
        (fst (onDeposit parseUnits_example example_config example_page (Some 0) True True))"
proof -
  have h: "wallet example_page" "address example_page = Some ''0xuser''" "''0xuser'' \<noteq> []"
    "hasConfig example_config"
    "parseUnits_example (if amount example_page \<noteq> [] then amount example_page else ''0'')
        (decimals example_page) = Some 1000000000"
    by (simp_all add: example_page_def example_config_def hasConfig_def parseUnits_example_def)
  have a: "VAULT_ADDR example_config = ''0xvault''" "USDC_ADDR example_config = ''0xusdc''"
    by (simp_all add: example_config_def)
  note low = onDeposit_check_approve_deposit [of example_page "''0xuser''" example_config
      parseUnits_example 1000000000 "Some 0" 0 True True]
  note covered = onDeposit_check_approve_deposit [of example_page "''0xuser''" example_config
      parseUnits_example 1000000000 "Some 1000000000" 1000000000 True True]
  have 1: "contract_calls (onDeposit parseUnits_example example_config example_page (Some 0) True True) =
       [ReadAllowance ''0xusdc'' ''0xuser'' ''0xvault'',
        WriteApprove ''0xuser'' ''0xusdc'' ''0xvault'' 1000000000,
        WriteDeposit ''0xuser'' ''0xvault'' 1000000000 ''0xuser'']"
    using low h a by simp
  have 2: "contract_calls (onDeposit parseUnits_example example_config example_page (Some 1000000000) True True) =
       [ReadAllowance ''0xusdc'' ''0xuser'' ''0xvault'',
        WriteDeposit ''0xuser'' ''0xvault'' 1000000000 ''0xuser'']"
    using covered h a by simp
  have 3: "deposit_after_read False
        (fst (onDeposit parseUnits_example example_config example_page (Some 0) True True))"
    using low by blast
  have 4: "list_ex is_approve (fst (onDeposit parseUnits_example example_config example_page (Some 0) True True))"
    using h a by (simp add: onDeposit_def connected_def)
  show ?thesis using h 1 2 3 4 by blast
qed

end
